theory Spec2Isabelle
  imports Complex_Main "HOL-Library.Word"
begin

section \<open>Biomedical image analysis notebooks: the computational cells\<close>

text \<open>
  The repository is a set of notebooks; each code cell is a short sequence of NumPy and
  SciPy calls. A cell is embedded as a function from the arrays it reads to the values
  it binds. Arrays are lists (a 2-D image is a list of rows, a 3-D volume a list of
  planes, a 4-D series a list of volumes); where a cell only reduces over all elements
  the array is given by its elements in storage order.

  Floating-point values are idealised as real numbers; the one floating-point effect
  that the cells depend on, division by zero, is kept: NumPy's true division returns
  \<open>nan\<close> or an infinity (with a warning, not an exception), which the type
  \<open>npfloat\<close> records. The sign of such an infinity is the sign of the dividend times
  the sign of the zero divisor; real numbers have one zero only, so the model records
  that the result is infinite and leaves its sign open. Rounding and overflow are
  outside the model.
\<close>

subsection \<open>Exceptions and NumPy scalars\<close>

datatype py_error = ValueError | IndexError | RuntimeError

datatype npfloat = Finite real | Infinite | NaN

definition np_true_divide :: "real \<Rightarrow> real \<Rightarrow> npfloat" where
  "np_true_divide a b =
     (if b \<noteq> 0 then Finite (a / b)
      else if a = 0 then NaN else Infinite)"

subsection \<open>Reductions of a one-dimensional array: argmax, argmin, max, min\<close>

text \<open>
  \<open>np.argmax\<close> scans the array once and keeps the first position of the largest value
  seen; on an empty array it raises ValueError. \<open>np.argmin\<close> is the mirror image.
  \<open>ndarray.max\<close> and \<open>ndarray.min\<close> raise ValueError on an empty array as well.
\<close>

fun argmax_scan :: "real list \<Rightarrow> nat \<Rightarrow> real \<Rightarrow> nat \<Rightarrow> nat" where
  "argmax_scan [] i best bi = bi"
| "argmax_scan (x # xs) i best bi =
     (if best < x then argmax_scan xs (Suc i) x i else argmax_scan xs (Suc i) best bi)"

fun argmin_scan :: "real list \<Rightarrow> nat \<Rightarrow> real \<Rightarrow> nat \<Rightarrow> nat" where
  "argmin_scan [] i best bi = bi"
| "argmin_scan (x # xs) i best bi =
     (if x < best then argmin_scan xs (Suc i) x i else argmin_scan xs (Suc i) best bi)"

definition np_argmax :: "real list \<Rightarrow> py_error + nat" where
  "np_argmax a = (case a of [] \<Rightarrow> Inl ValueError | x # xs \<Rightarrow> Inr (argmax_scan xs 1 x 0))"

definition np_argmin :: "real list \<Rightarrow> py_error + nat" where
  "np_argmin a = (case a of [] \<Rightarrow> Inl ValueError | x # xs \<Rightarrow> Inr (argmin_scan xs 1 x 0))"

definition np_max :: "real list \<Rightarrow> py_error + real" where
  "np_max a = (case a of [] \<Rightarrow> Inl ValueError | x # xs \<Rightarrow> Inr (fold max xs x))"

definition np_min :: "real list \<Rightarrow> py_error + real" where
  "np_min a = (case a of [] \<Rightarrow> Inl ValueError | x # xs \<Rightarrow> Inr (fold min xs x))"

subsection \<open>Chapter 3, "Measure ejection fraction"\<close>

text \<open>
  The cell binds \<open>tmax = np.argmax(ts)\<close>, \<open>tmin = np.argmin(ts)\<close>,
  \<open>ej_vol = ts.max() - ts.min()\<close> and \<open>ej_frac = ej_vol / ts.max()\<close>, in this order.
  The two \<open>imshow\<close> calls between them only render frames and are not modelled.
  There is no test of the series before the division.
\<close>

record ef_result =
  tmax :: nat
  tmin :: nat
  ej_vol :: real
  ej_frac :: npfloat

definition ejection_fraction :: "real list \<Rightarrow> py_error + ef_result" where
  "ejection_fraction ts =
     (case np_argmax ts of Inl e \<Rightarrow> Inl e | Inr imax \<Rightarrow>
      case np_argmin ts of Inl e \<Rightarrow> Inl e | Inr imin \<Rightarrow>
      case np_max ts of Inl e \<Rightarrow> Inl e | Inr mx \<Rightarrow>
      case np_min ts of Inl e \<Rightarrow> Inl e | Inr mn \<Rightarrow>
        Inr \<lparr>tmax = imax, tmin = imin, ej_vol = mx - mn,
             ej_frac = np_true_divide (mx - mn) mx\<rparr>)"

text \<open>Position \<open>k\<close> holds the largest value of \<open>ys\<close>, and no earlier position does.\<close>

definition first_max_at :: "real list \<Rightarrow> nat \<Rightarrow> bool" where
  "first_max_at ys k =
     (k < length ys \<and> list_all (\<lambda>y. y \<le> ys ! k) ys \<and> list_all (\<lambda>y. y < ys ! k) (take k ys))"

definition first_min_at :: "real list \<Rightarrow> nat \<Rightarrow> bool" where
  "first_min_at ys k =
     (k < length ys \<and> list_all (\<lambda>y. ys ! k \<le> y) ys \<and> list_all (\<lambda>y. ys ! k < y) (take k ys))"

subsection \<open>Chapter 3, "Select objects"\<close>

text \<open>
  The cell reads \<open>lv_val = labels[128, 128]\<close> and builds
  \<open>lv_mask = np.where(labels == lv_val, 1, np.nan)\<close>. The anchor is a parameter here;
  the notebook's is \<open>lv_anchor\<close>. Indexing outside the array raises IndexError.
  Nothing in the cell looks at the value read before it is used.
\<close>

definition np_getitem2 :: "'a list list \<Rightarrow> nat \<Rightarrow> nat \<Rightarrow> py_error + 'a" where
  "np_getitem2 a r c =
     (if r < length a \<and> c < length (a ! r) then Inr (a ! r ! c) else Inl IndexError)"

definition lv_anchor :: "nat \<times> nat" where
  "lv_anchor = (128, 128)"

definition select_component ::
    "nat list list \<Rightarrow> nat \<times> nat \<Rightarrow> py_error + nat \<times> npfloat list list" where
  "select_component labels anchor =
     (case np_getitem2 labels (fst anchor) (snd anchor) of
        Inl e \<Rightarrow> Inl e
      | Inr lv_val \<Rightarrow>
          Inr (lv_val, map (map (\<lambda>l. if l = lv_val then Finite 1 else NaN)) labels))"

subsection \<open>Elementwise operations on two images\<close>

text \<open>
  The cells of chapter 4 combine two images elementwise and then reduce over all
  elements, so an image is given there by its elements in storage order; two images of
  the same shape have equally many. NumPy rejects operands whose shapes do not match
  with a ValueError (it would broadcast an axis of length one; the notebook only pairs
  images of one shape, and the model treats every other pair as rejected).
\<close>

definition np_elementwise :: "('a \<Rightarrow> 'b \<Rightarrow> 'c) \<Rightarrow> 'a list \<Rightarrow> 'b list \<Rightarrow> py_error + 'c list" where
  "np_elementwise f a b = (if length a = length b then Inr (map2 f a b) else Inl ValueError)"

subsection \<open>Chapter 4, "Intersection of the union"\<close>

text \<open>
  \<open>i = np.logical_and(im1, im2)\<close>, \<open>u = np.logical_or(im1, im2)\<close>,
  \<open>return i.sum() / u.sum()\<close>. The sum of a boolean array counts its true elements;
  the quotient of the two counts is a true division.
\<close>

definition np_sum_bool :: "bool list \<Rightarrow> nat" where
  "np_sum_bool a = length (filter (\<lambda>b. b) a)"

definition intersection_of_union :: "bool list \<Rightarrow> bool list \<Rightarrow> py_error + npfloat" where
  "intersection_of_union im1 im2 =
     (case np_elementwise (\<and>) im1 im2 of Inl e \<Rightarrow> Inl e | Inr i \<Rightarrow>
      case np_elementwise (\<or>) im1 im2 of Inl e \<Rightarrow> Inl e | Inr u \<Rightarrow>
        Inr (np_true_divide (real (np_sum_bool i)) (real (np_sum_bool u))))"

subsection \<open>Chapter 4, "Mean absolute error"\<close>

text \<open>
  \<open>abs_err = np.abs(im1 - im2)\<close> and \<open>mean_abs_err = np.mean(np.abs(im1 - im2))\<close> on
  two images of unsigned 8-bit intensities. The difference of two \<open>uint8\<close> arrays is a
  \<open>uint8\<close> array (subtraction modulo 256), \<open>np.abs\<close> of an unsigned value is the value
  itself, and \<open>np.mean\<close> divides the sum of the elements by their number (\<open>nan\<close> for an
  empty array).
\<close>

type_synonym uint8 = "8 word"








subsection \<open>Chapter 2, "Histograms"\<close>

text \<open>
  \<open>hist = ndi.histogram(im, min=0, max=255, bins=256)\<close> and
  \<open>cdf = hist.cumsum() / hist.sum()\<close>, on the radiograph loaded as an array of unsigned
  8-bit intensities. The library call is not part of the repository; it counts, for each
  of 256 bins of equal width between 0 and 255, the elements that fall in it. The bin
  edges are \<open>k * 255 / 256\<close>; each bin contains its left edge, the last bin its right
  edge as well. \<open>bin_of\<close> is the bin of an integer intensity between 0 and 255.
  \<open>cumsum\<close> gives the running sums, and the division is elementwise true division by
  the total.
\<close>

definition bin_of :: "nat \<Rightarrow> nat" where
  "bin_of v = (if v = 255 then 255 else (v * 256) div 255)"

definition ndi_histogram :: "uint8 list \<Rightarrow> nat list" where
  "ndi_histogram im = map (\<lambda>k. length (filter (\<lambda>p. bin_of (unat p) = k) im)) [0..<256]"

fun cumsum_from :: "nat \<Rightarrow> nat list \<Rightarrow> nat list" where
  "cumsum_from acc [] = []"
| "cumsum_from acc (x # xs) = (acc + x) # cumsum_from (acc + x) xs"

definition np_cumsum :: "nat list \<Rightarrow> nat list" where
  "np_cumsum a = cumsum_from 0 a"

definition cdf :: "uint8 list \<Rightarrow> npfloat list" where
  "cdf im =
     (let hist = ndi_histogram im
      in map (\<lambda>c. np_true_divide (real c) (real (sum_list hist))) (np_cumsum hist))"

subsection \<open>Chapter 3, "Calculate volume" and "Summarize the time series"\<close>

text \<open>
  A labelled volume is a list of planes, each a list of rows; \<open>voxels\<close> lists its
  elements in storage order.
\<close>

definition voxels :: "'a list list list \<Rightarrow> 'a list" where
  "voxels vol = concat (concat vol)"

definition count_voxels :: "nat list list list \<Rightarrow> nat \<Rightarrow> nat" where
  "count_voxels label_map selected_label =
     length (filter (\<lambda>l. l = selected_label) (voxels label_map))"

text \<open>
  Modelled from the spec: \<open>measure_volume\<close>. The notebook leaves the measurement blank
  (\<open>nvoxels = ____\<close>, \<open>ts[t] = ____\<close>); the exercise text and the spec agree on it: count
  the voxels equal to the selected label and multiply by the physical volume of one
  voxel.
\<close>

definition measure_volume :: "nat list list list \<Rightarrow> nat \<Rightarrow> real \<Rightarrow> real" where
  "measure_volume label_map selected_label voxel_physical_volume =
     real (count_voxels label_map selected_label) * voxel_physical_volume"

text \<open>
  Modelled from the spec: the measurement "with the unrestricted (label_map != 0) mask",
  which counts every voxel that is not background.
\<close>

definition measure_nonbackground :: "nat list list list \<Rightarrow> real \<Rightarrow> real" where
  "measure_nonbackground label_map voxel_physical_volume =
     real (length (filter (\<lambda>l. l \<noteq> 0) (voxels label_map))) * voxel_physical_volume"


subsection \<open>Chapter 3, "Segment the heart"\<close>

text \<open>
  The cell is
  \<^verbatim>\<open>im_filt = ndi.median_filter(im, size=3)\<close>,
  \<^verbatim>\<open>mask_start = np.where(im_filt > 60, 1, 0)\<close>,
  \<^verbatim>\<open>mask = ndi.binary_closing(mask_start)\<close>,
  \<^verbatim>\<open>labels, nlabels = ndi.label(mask)\<close>
  on one 2-D slice: a list of rows of one length. The three \<open>ndi\<close> routines belong to
  the SciPy library, not to the repository. \<open>tabulate2\<close> builds an array of the shape of
  a given one from a function of the row and column index.
\<close>

definition tabulate2 :: "'a list list \<Rightarrow> (nat \<Rightarrow> nat \<Rightarrow> 'b) \<Rightarrow> 'b list list" where
  "tabulate2 a f = map (\<lambda>r. map (\<lambda>c. f r c) [0..<length (a ! r)]) [0..<length a]"

text \<open>
  Modelled from the spec: \<open>ndi.median_filter\<close>, "a median filter over a cubic/square
  neighborhood of the given size". Each output element is the median (the element of
  rank \<open>size * size div 2\<close>) of the \<open>size\<close> by \<open>size\<close> window around it; the window starts
  \<open>size div 2\<close> before the element, and positions outside the image are read by
  reflection at the edge (\<open>d c b a | a b c d | d c b a\<close>), the library's default. A window
  of size 0 is refused.
\<close>

definition reflect :: "nat \<Rightarrow> int \<Rightarrow> nat" where
  "reflect n i =
     (let m = i mod (2 * int n) in nat (if m < int n then m else 2 * int n - 1 - m))"

definition pixel_reflect :: "int list list \<Rightarrow> int \<Rightarrow> int \<Rightarrow> int" where
  "pixel_reflect im r c =
     (let row = im ! reflect (length im) r in row ! reflect (length row) c)"

definition window_offsets :: "nat \<Rightarrow> int list" where
  "window_offsets fsize = map (\<lambda>j. int j - int (fsize div 2)) [0..<fsize]"

definition window :: "int list list \<Rightarrow> nat \<Rightarrow> nat \<Rightarrow> nat \<Rightarrow> int list" where
  "window im fsize r c =
     concat (map (\<lambda>dr. map (\<lambda>dc. pixel_reflect im (int r + dr) (int c + dc))
                           (window_offsets fsize))
                 (window_offsets fsize))"

definition median_filter :: "int list list \<Rightarrow> nat \<Rightarrow> py_error + int list list" where
  "median_filter im fsize =
     (if fsize = 0 then Inl RuntimeError
      else Inr (tabulate2 im (\<lambda>r c. sort (window im fsize r c) ! (fsize * fsize div 2))))"

text \<open>\<open>np.where(im_filt > threshold, 1, 0)\<close>.\<close>

definition np_where_gt :: "int list list \<Rightarrow> int \<Rightarrow> nat list list" where
  "np_where_gt a threshold = map (map (\<lambda>v. if threshold < v then 1 else 0)) a"

text \<open>
  Modelled from the spec: \<open>ndi.binary_closing\<close>, "a binary closing operation
  (dilate-then-erode)". Non-zero elements count as true. Dilation and erosion use the
  library's default structuring element, an element with its four face neighbours, once;
  positions outside the image count as false in both.
\<close>

definition cross :: "(int \<times> int) list" where
  "cross = [(-1, 0), (0, -1), (0, 0), (0, 1), (1, 0)]"

definition at_or_false :: "bool list list \<Rightarrow> int \<Rightarrow> int \<Rightarrow> bool" where
  "at_or_false m r c =
     (0 \<le> r \<and> r < int (length m) \<and> 0 \<le> c \<and> c < int (length (m ! nat r))
      \<and> m ! nat r ! nat c)"

definition binary_dilation :: "bool list list \<Rightarrow> bool list list" where
  "binary_dilation m =
     tabulate2 m (\<lambda>r c. list_ex (\<lambda>(dr, dc). at_or_false m (int r + dr) (int c + dc)) cross)"

definition binary_erosion :: "bool list list \<Rightarrow> bool list list" where
  "binary_erosion m =
     tabulate2 m (\<lambda>r c. list_all (\<lambda>(dr, dc). at_or_false m (int r + dr) (int c + dc)) cross)"

definition binary_closing :: "nat list list \<Rightarrow> bool list list" where
  "binary_closing a = binary_erosion (binary_dilation (map (map (\<lambda>v. v \<noteq> 0)) a))"

text \<open>The first three lines of the cell, with the size and the threshold as parameters.\<close>

definition filter_and_mask :: "int list list \<Rightarrow> nat \<Rightarrow> int \<Rightarrow> py_error + bool list list" where
  "filter_and_mask im fsize threshold =
     (case median_filter im fsize of
        Inl e \<Rightarrow> Inl e
      | Inr im_filt \<Rightarrow>
          (let mask_start = np_where_gt im_filt threshold in Inr (binary_closing mask_start)))"

text \<open>
  Modelled from the spec: \<open>ndi.label\<close>, "flood-fill connected-component labeling under
  face-adjacency; returns Label Map and component count K". The mask is scanned in
  storage order; a true element that has no label yet starts component \<open>K + 1\<close>, which
  is flooded from it: \<open>spread\<close> gives the label to every unlabelled true element with a
  face neighbour that has it, and as many rounds as the mask has elements reach the
  whole component.
\<close>

definition face_neighbours :: "(int \<times> int) list" where
  "face_neighbours = [(-1, 0), (0, -1), (0, 1), (1, 0)]"

definition label_at :: "nat list list \<Rightarrow> int \<Rightarrow> int \<Rightarrow> nat" where
  "label_at labels r c =
     (if 0 \<le> r \<and> r < int (length labels) \<and> 0 \<le> c \<and> c < int (length (labels ! nat r))
      then labels ! nat r ! nat c else 0)"

definition spread :: "bool list list \<Rightarrow> nat \<Rightarrow> nat list list \<Rightarrow> nat list list" where
  "spread msk k labels =
     tabulate2 msk (\<lambda>r c.
       if msk ! r ! c \<and> labels ! r ! c = 0
          \<and> list_ex (\<lambda>(dr, dc). label_at labels (int r + dr) (int c + dc) = k) face_neighbours
       then k else labels ! r ! c)"

definition flood_fill ::
    "bool list list \<Rightarrow> nat list list \<Rightarrow> nat \<Rightarrow> nat \<Rightarrow> nat \<Rightarrow> nat list list" where
  "flood_fill msk labels r c k =
     (spread msk k ^^ sum_list (map length msk)) (labels[r := (labels ! r)[c := k]])"

definition coords :: "'a list list \<Rightarrow> (nat \<times> nat) list" where
  "coords a = concat (map (\<lambda>r. map (\<lambda>c. (r, c)) [0..<length (a ! r)]) [0..<length a])"

definition label_step ::
    "bool list list \<Rightarrow> nat list list \<times> nat \<Rightarrow> nat \<times> nat \<Rightarrow> nat list list \<times> nat" where
  "label_step msk s p =
     (let labels = fst s; K = snd s; r = fst p; c = snd p
      in if msk ! r ! c \<and> labels ! r ! c = 0
         then (flood_fill msk labels r c (Suc K), Suc K)
         else (labels, K))"

definition label_components :: "bool list list \<Rightarrow> nat list list \<times> nat" where
  "label_components msk =
     foldl (label_step msk) (map (map (\<lambda>_. 0)) msk, 0) (coords msk)"

section \<open>Properties\<close>

subsection \<open>The array reductions\<close>

lemma argmax_scan_first_max:
  "first_max_at pre bi \<Longrightarrow>
   first_max_at (pre @ xs) (argmax_scan xs (length pre) (pre ! bi) bi)"
proof (induction xs arbitrary: pre bi)
  case Nil
  then show ?case by simp
next
  case (Cons x xs)
  have bi: "bi < length pre" using Cons.prems by (simp add: first_max_at_def)
  show ?case
  proof (cases "pre ! bi < x")
    case True
    have "first_max_at (pre @ [x]) (length pre)"
      using Cons.prems True
      by (auto simp: first_max_at_def list_all_iff nth_append)
    from Cons.IH [OF this] True show ?thesis by simp
  next
    case False
    have "first_max_at (pre @ [x]) bi"
      using Cons.prems False bi
      by (auto simp: first_max_at_def list_all_iff nth_append)
    from Cons.IH [OF this] False bi show ?thesis by (simp add: nth_append)
  qed
qed

lemma argmin_scan_first_min:
  "first_min_at pre bi \<Longrightarrow>
   first_min_at (pre @ xs) (argmin_scan xs (length pre) (pre ! bi) bi)"
proof (induction xs arbitrary: pre bi)
  case Nil
  then show ?case by simp
next
  case (Cons x xs)
  have bi: "bi < length pre" using Cons.prems by (simp add: first_min_at_def)
  show ?case
  proof (cases "x < pre ! bi")
    case True
    have "first_min_at (pre @ [x]) (length pre)"
      using Cons.prems True
      by (auto simp: first_min_at_def list_all_iff nth_append)
    from Cons.IH [OF this] True show ?thesis by simp
  next
    case False
    have "first_min_at (pre @ [x]) bi"
      using Cons.prems False bi
      by (auto simp: first_min_at_def list_all_iff nth_append)
    from Cons.IH [OF this] False bi show ?thesis by (simp add: nth_append)
  qed
qed

lemma np_argmax_first_max:
  "ts \<noteq> [] \<Longrightarrow> \<exists>k. np_argmax ts = Inr k \<and> first_max_at ts k"
proof (cases ts)
  case Nil
  assume "ts \<noteq> []" with Nil show ?thesis by simp
next
  case (Cons x xs)
  have "first_max_at [x] 0" by (simp add: first_max_at_def)
  from argmax_scan_first_max [OF this, of xs] show ?thesis
    by (simp add: np_argmax_def Cons)
qed

lemma np_argmin_first_min:
  "ts \<noteq> [] \<Longrightarrow> \<exists>k. np_argmin ts = Inr k \<and> first_min_at ts k"
proof (cases ts)
  case Nil
  assume "ts \<noteq> []" with Nil show ?thesis by simp
next
  case (Cons x xs)
  have "first_min_at [x] 0" by (simp add: first_min_at_def)
  from argmin_scan_first_min [OF this, of xs] show ?thesis
    by (simp add: np_argmin_def Cons)
qed

lemma fold_max_Max: "fold max xs (x::real) = Max (set (x # xs))"
  by (rule Max.set_eq_fold [symmetric])

lemma fold_min_Min: "fold min xs (x::real) = Min (set (x # xs))"
  by (rule Min.set_eq_fold [symmetric])

lemma np_max_Max: "ts \<noteq> [] \<Longrightarrow> np_max ts = Inr (Max (set ts))"
  by (cases ts) (simp_all add: np_max_def fold_max_Max del: set_simps)

lemma np_min_Min: "ts \<noteq> [] \<Longrightarrow> np_min ts = Inr (Min (set ts))"
  by (cases ts) (simp_all add: np_min_def fold_min_Min del: set_simps)

lemma first_max_at_Max: "first_max_at ts k \<Longrightarrow> ts ! k = Max (set ts)"
  by (rule sym, rule Max_eqI) (auto simp: first_max_at_def list_all_iff)

lemma first_min_at_Min: "first_min_at ts k \<Longrightarrow> ts ! k = Min (set ts)"
  by (rule sym, rule Min_eqI) (auto simp: first_min_at_def list_all_iff)

subsection \<open>The ejection fraction cell\<close>

lemma ejection_fraction_nonempty:
  assumes "ts \<noteq> []"
  shows "\<exists>r. ejection_fraction ts = Inr r
           \<and> first_max_at ts (tmax r) \<and> first_min_at ts (tmin r)
           \<and> ej_vol r = Max (set ts) - Min (set ts)
           \<and> ej_frac r = np_true_divide (Max (set ts) - Min (set ts)) (Max (set ts))"
proof -
  from np_argmax_first_max [OF assms] obtain i where i: "np_argmax ts = Inr i" "first_max_at ts i"
    by blast
  from np_argmin_first_min [OF assms] obtain j where j: "np_argmin ts = Inr j" "first_min_at ts j"
    by blast
  show ?thesis
    using i j by (simp add: ejection_fraction_def np_max_Max [OF assms] np_min_Min [OF assms])
qed

text \<open>
  Claim C3. For every non-empty volume series with a positive maximum the cell returns
  \<open>(max - min) / max\<close> together with the time index of the maximum and the time index of
  the minimum (the first position of each); on the series \<open>[100, 80, 120, 90]\<close> the
  fraction is \<open>(120 - 80) / 120 = 1/3\<close>, the maximum is at index 2 and the minimum at
  index 1.
\<close>

theorem ejection_fraction_positive_max:
  "(ts \<noteq> [] \<longrightarrow> 0 < Max (set ts) \<longrightarrow>
      (\<exists>r. ejection_fraction ts = Inr r
         \<and> ej_frac r = Finite ((Max (set ts) - Min (set ts)) / Max (set ts))
         \<and> first_max_at ts (tmax r) \<and> ts ! tmax r = Max (set ts)
         \<and> first_min_at ts (tmin r) \<and> ts ! tmin r = Min (set ts)))
   \<and> ejection_fraction [100, 80, 120, 90]
       = Inr \<lparr>tmax = 2, tmin = 1, ej_vol = 40, ej_frac = Finite ((120 - 80) / 120)\<rparr>"
proof (intro conjI impI)
  assume ne: "ts \<noteq> []" and pos: "0 < Max (set ts)"
  from ejection_fraction_nonempty [OF ne] obtain r where r:
    "ejection_fraction ts = Inr r" "first_max_at ts (tmax r)" "first_min_at ts (tmin r)"
    "ej_frac r = np_true_divide (Max (set ts) - Min (set ts)) (Max (set ts))"
    by blast
  have "ej_frac r = Finite ((Max (set ts) - Min (set ts)) / Max (set ts))"
    using r(4) pos by (simp add: np_true_divide_def)
  with r first_max_at_Max [OF r(2)] first_min_at_Min [OF r(3)]
  show "\<exists>r. ejection_fraction ts = Inr r
         \<and> ej_frac r = Finite ((Max (set ts) - Min (set ts)) / Max (set ts))
         \<and> first_max_at ts (tmax r) \<and> ts ! tmax r = Max (set ts)
         \<and> first_min_at ts (tmin r) \<and> ts ! tmin r = Min (set ts)"
    by blast
next
  show "ejection_fraction [100, 80, 120, 90]
       = Inr \<lparr>tmax = 2, tmin = 1, ej_vol = 40, ej_frac = Finite ((120 - 80) / 120)\<rparr>"
    by (simp add: ejection_fraction_def np_argmax_def np_argmin_def np_max_def np_min_def
        np_true_divide_def)
qed

theorem ejection_fraction_positive_max_witness:
  "[3, 7, 7, 2 :: real] \<noteq> [] \<and> 0 < Max (set [3, 7, 7, 2 :: real])
   \<and> (\<exists>r. ejection_fraction [3, 7, 7, 2] = Inr r \<and> ej_frac r = Finite (5 / 7)
          \<and> tmax r = 1 \<and> tmin r = 3)"
  using ejection_fraction_positive_max [of "[3, 7, 7, 2]"]
  by (simp add: ejection_fraction_def np_argmax_def np_argmin_def np_max_def np_min_def
      np_true_divide_def)

lemma first_max_at_all_zero:
  assumes "first_max_at ts k" "\<forall>x\<in>set ts. x = 0"
  shows "k = 0"
proof (rule ccontr)
  assume "k \<noteq> 0"
  from assms(1) have k: "k < length ts" by (simp add: first_max_at_def)
  with \<open>k \<noteq> 0\<close> have "take k ts ! 0 = ts ! 0" "0 < length (take k ts)" by simp_all
  then have "ts ! 0 \<in> set (take k ts)" by (metis nth_mem)
  with assms(1) have "ts ! 0 < ts ! k" by (simp add: first_max_at_def list_all_iff)
  moreover from k have "0 < length ts" by (cases ts) simp_all
  with k have "ts ! 0 \<in> set ts" "ts ! k \<in> set ts" by (simp_all only: nth_mem)
  with assms(2) have "ts ! 0 = 0" "ts ! k = 0" by blast+
  ultimately show False by simp
qed

lemma first_min_at_all_zero:
  assumes "first_min_at ts k" "\<forall>x\<in>set ts. x = 0"
  shows "k = 0"
proof (rule ccontr)
  assume "k \<noteq> 0"
  from assms(1) have k: "k < length ts" by (simp add: first_min_at_def)
  with \<open>k \<noteq> 0\<close> have "take k ts ! 0 = ts ! 0" "0 < length (take k ts)" by simp_all
  then have "ts ! 0 \<in> set (take k ts)" by (metis nth_mem)
  with assms(1) have "ts ! k < ts ! 0" by (simp add: first_min_at_def list_all_iff)
  moreover from k have "0 < length ts" by (cases ts) simp_all
  with k have "ts ! 0 \<in> set ts" "ts ! k \<in> set ts" by (simp_all only: nth_mem)
  with assms(2) have "ts ! 0 = 0" "ts ! k = 0" by blast+
  ultimately show False by simp
qed

text \<open>
  Claim C1, as the code has it. The cell has no degenerate-series result. On the empty
  series it stops at \<open>np.argmax\<close> with a ValueError, before any division. On a non-empty
  series of non-negative measurements whose maximum is 0, that is on every all-zero
  series, it does not fail: it returns index 0 for both extrema, the ejection volume 0
  and the fraction \<open>nan\<close>.
\<close>

theorem ejection_fraction_degenerate:
  "ejection_fraction [] = Inl ValueError
   \<and> (ts \<noteq> [] \<longrightarrow> (\<forall>x\<in>set ts. 0 \<le> x) \<longrightarrow> Max (set ts) = 0 \<longrightarrow>
        ejection_fraction ts = Inr \<lparr>tmax = 0, tmin = 0, ej_vol = 0, ej_frac = NaN\<rparr>)"
proof (intro conjI impI)
  show "ejection_fraction [] = Inl ValueError"
    by (simp add: ejection_fraction_def np_argmax_def)
next
  assume ne: "ts \<noteq> []" and nonneg: "\<forall>x\<in>set ts. 0 \<le> x" and zero: "Max (set ts) = 0"
  have all_zero: "\<forall>x\<in>set ts. x = 0"
  proof
    fix x assume x: "x \<in> set ts"
    then have "x \<le> Max (set ts)" by simp
    with zero nonneg x show "x = 0" by force
  qed
  have "Min (set ts) \<in> set ts" using ne by simp
  with all_zero have min_zero: "Min (set ts) = 0" by blast
  from ejection_fraction_nonempty [OF ne] obtain r where r:
    "ejection_fraction ts = Inr r" "first_max_at ts (tmax r)" "first_min_at ts (tmin r)"
    "ej_vol r = Max (set ts) - Min (set ts)"
    "ej_frac r = np_true_divide (Max (set ts) - Min (set ts)) (Max (set ts))"
    by blast
  have "tmax r = 0" by (rule first_max_at_all_zero [OF r(2) all_zero])
  moreover have "tmin r = 0" by (rule first_min_at_all_zero [OF r(3) all_zero])
  moreover have "ej_vol r = 0" using r(4) zero min_zero by simp
  moreover have "ej_frac r = NaN" using r(5) zero min_zero by (simp add: np_true_divide_def)
  ultimately have "r = \<lparr>tmax = 0, tmin = 0, ej_vol = 0, ej_frac = NaN\<rparr>"
    by (cases r) simp
  with r(1) show "ejection_fraction ts = Inr \<lparr>tmax = 0, tmin = 0, ej_vol = 0, ej_frac = NaN\<rparr>"
    by simp
qed

theorem ejection_fraction_degenerate_witness:
  "[0, 0 :: real] \<noteq> [] \<and> list_all (\<lambda>x. 0 \<le> x) [0, 0 :: real] \<and> Max (set [0, 0 :: real]) = 0
   \<and> ejection_fraction [0, 0] = Inr \<lparr>tmax = 0, tmin = 0, ej_vol = 0, ej_frac = NaN\<rparr>
   \<and> ejection_fraction [] = Inl ValueError"
  using ejection_fraction_degenerate [of "[0, 0]"]
  by simp

theorem ejection_fraction_all_zero_counterexample:
  "Max (set [0, 0, 0 :: real]) = 0
   \<and> ejection_fraction [0, 0, 0] = Inr \<lparr>tmax = 0, tmin = 0, ej_vol = 0, ej_frac = NaN\<rparr>"
  by (simp add: ejection_fraction_def np_argmax_def np_argmin_def np_max_def np_min_def
      np_true_divide_def)

subsection \<open>Selecting the component at the anchor\<close>

text \<open>
  Claim C2, as the code has it. For every label map and every in-bounds anchor the cell
  reads the label at the anchor and returns it, whatever it is, together with the mask of
  the elements that carry this label. There is no failure for the background label 0:
  then the value returned is 0 and the mask marks exactly the background.
\<close>

theorem select_component_reads_anchor:
  "r < length labels \<Longrightarrow> c < length (labels ! r) \<Longrightarrow>
   select_component labels (r, c)
     = Inr (labels ! r ! c,
            map (map (\<lambda>l. if l = labels ! r ! c then Finite 1 else NaN)) labels)"
  by (simp add: select_component_def np_getitem2_def)

theorem select_component_reads_anchor_witness:
  "(1::nat) < length [[0, 0, 0], [0, 2, 2 :: nat]]
   \<and> (1::nat) < length ([[0, 0, 0], [0, 2, 2 :: nat]] ! 1)
   \<and> select_component [[0, 0, 0], [0, 2, 2]] (1, 1)
       = Inr (2, [[NaN, NaN, NaN], [NaN, Finite 1, Finite 1]])"
  using select_component_reads_anchor [of 1 "[[0, 0, 0], [0, 2, 2]]" 1]
  by simp

lemma select_component_small_image:
  "length labels \<le> 128 \<Longrightarrow> select_component labels lv_anchor = Inl IndexError"
  by (simp add: select_component_def np_getitem2_def lv_anchor_def)

theorem select_component_background_counterexample:
  "np_getitem2 [[0, 1], [1, 1 :: nat]] 0 0 = Inr 0
   \<and> select_component [[0, 1], [1, 1]] (0, 0) = Inr (0, [[Finite 1, NaN], [NaN, NaN]])"
  by (simp add: select_component_def np_getitem2_def)

subsection \<open>Intersection of the union\<close>

lemma sum_bool_and_le_or:
  "length a = length b \<Longrightarrow> np_sum_bool (map2 (\<and>) a b) \<le> np_sum_bool (map2 (\<or>) a b)"
  by (induction a b rule: list_induct2) (auto simp: np_sum_bool_def)

lemma sum_bool_pos: "(0 < np_sum_bool a) = (True \<in> set a)"
  by (induction a) (auto simp: np_sum_bool_def)

lemma True_in_map2_or:
  "length a = length b \<Longrightarrow> (True \<in> set (map2 (\<or>) a b)) = (True \<in> set a \<union> set b)"
  by (induction a b rule: list_induct2) auto

lemma sum_bool_or_pos:
  "length a = length b \<Longrightarrow> (0 < np_sum_bool (map2 (\<or>) a b)) = (True \<in> set a \<union> set b)"
  by (simp only: sum_bool_pos True_in_map2_or)

lemma map2_and_commute: "length a = length b \<Longrightarrow> map2 (\<and>) a b = map2 (\<and>) b a"
  by (induction a b rule: list_induct2) auto

lemma map2_or_commute: "length a = length b \<Longrightarrow> map2 (\<or>) a b = map2 (\<or>) b a"
  by (induction a b rule: list_induct2) auto

lemma intersection_of_union_same_shape:
  "length im1 = length im2 \<Longrightarrow>
   intersection_of_union im1 im2
     = Inr (np_true_divide (real (np_sum_bool (map2 (\<and>) im1 im2)))
                           (real (np_sum_bool (map2 (\<or>) im1 im2))))"
  by (simp add: intersection_of_union_def np_elementwise_def)

text \<open>
  Claim C9. For two boolean masks of the same shape whose union has a true pixel,
  \<open>intersection_of_union\<close> gives the same value with its arguments exchanged and this
  value lies in \<open>[0, 1]\<close>. When both masks are all-false, \<open>u.sum()\<close> is 0 and the
  division is carried out all the same: the value returned is \<open>nan\<close>, not an error.
\<close>

theorem intersection_of_union_symmetric_unit:
  assumes "length im1 = length im2"
  shows "(True \<in> set im1 \<union> set im2 \<longrightarrow>
            intersection_of_union im1 im2 = intersection_of_union im2 im1
            \<and> (\<exists>x. intersection_of_union im1 im2 = Inr (Finite x) \<and> 0 \<le> x \<and> x \<le> 1))
       \<and> (True \<notin> set im1 \<union> set im2 \<longrightarrow>
            np_elementwise (\<or>) im1 im2 = Inr (map2 (\<or>) im1 im2)
            \<and> np_sum_bool (map2 (\<or>) im1 im2) = 0
            \<and> intersection_of_union im1 im2 = Inr NaN)"
proof (intro conjI impI)
  show "intersection_of_union im1 im2 = intersection_of_union im2 im1"
    using assms
    by (simp add: intersection_of_union_same_shape map2_and_commute map2_or_commute)
next
  assume "True \<in> set im1 \<union> set im2"
  then have pos: "0 < np_sum_bool (map2 (\<or>) im1 im2)"
    using sum_bool_or_pos [OF assms] by simp
  let ?x = "real (np_sum_bool (map2 (\<and>) im1 im2)) / real (np_sum_bool (map2 (\<or>) im1 im2))"
  have "intersection_of_union im1 im2 = Inr (Finite ?x)"
    using pos assms by (simp add: intersection_of_union_same_shape np_true_divide_def)
  moreover have "0 \<le> ?x" by simp
  moreover have "?x \<le> 1"
    using pos sum_bool_and_le_or [OF assms] by simp
  ultimately show "\<exists>x. intersection_of_union im1 im2 = Inr (Finite x) \<and> 0 \<le> x \<and> x \<le> 1"
    by blast
next
  show "np_elementwise (\<or>) im1 im2 = Inr (map2 (\<or>) im1 im2)"
    using assms by (simp add: np_elementwise_def)
next
  assume none: "True \<notin> set im1 \<union> set im2"
  then show zero: "np_sum_bool (map2 (\<or>) im1 im2) = 0"
    using sum_bool_or_pos [OF assms] by simp
  have "np_sum_bool (map2 (\<and>) im1 im2) = 0"
    using sum_bool_and_le_or [OF assms] zero by simp
  then show "intersection_of_union im1 im2 = Inr NaN"
    using zero assms by (simp add: intersection_of_union_same_shape np_true_divide_def)
qed

theorem intersection_of_union_symmetric_unit_witness:
  "length [True, True, False, False] = length [True, False, True, False]
   \<and> True \<in> set [True, True, False, False] \<union> set [True, False, True, False]
   \<and> intersection_of_union [True, True, False, False] [True, False, True, False]
       = Inr (Finite (1 / 3))
   \<and> intersection_of_union [True, False, True, False] [True, True, False, False]
       = Inr (Finite (1 / 3))
   \<and> length [False, False] = length [False, False]
   \<and> True \<notin> set [False, False] \<union> set [False, False]
   \<and> intersection_of_union [False, False] [False, False] = Inr NaN"
  using intersection_of_union_symmetric_unit
          [of "[True, True, False, False]" "[True, False, True, False]"]
        intersection_of_union_symmetric_unit [of "[False, False]" "[False, False]"]
  by (simp add: intersection_of_union_def np_elementwise_def np_sum_bool_def
      np_true_divide_def)

subsection \<open>Mean absolute error of unsigned 8-bit images\<close>









subsection \<open>Histogram and cumulative distribution\<close>

lemma bin_of_id: "v \<le> 255 \<Longrightarrow> bin_of v = v"
proof (cases "v = 255")
  case True
  then show ?thesis by (simp add: bin_of_def)
next
  case False
  assume "v \<le> 255"
  with False have small: "v div 255 = 0" by simp
  have "v * 256 = v + v * 255" by simp
  then have "v * 256 div 255 = v + v div 255" by (simp only: div_mult_self1)
  with small False show ?thesis by (simp add: bin_of_def)
qed

lemma unat_uint8_less: "unat (p :: uint8) < 256"
  using unsigned_less [of p, where ?'a = nat] by simp

lemma bin_of_uint8: "bin_of (unat (p :: uint8)) = unat p"
  using unat_uint8_less [of p] by (simp add: bin_of_id)

lemma ndi_histogram_nth:
  "k < 256 \<Longrightarrow> ndi_histogram im ! k = length (filter (\<lambda>p. unat p = k) im)"
  by (simp add: ndi_histogram_def bin_of_uint8)

lemma sum_list_indicator:
  "a < n \<Longrightarrow> sum_list (map (\<lambda>k. if a = k then 1 else 0) [0..<n]) = (1::nat)"
  by (simp add: interv_sum_list_conv_sum_set_nat del: sum_set_upt_conv_sum_list_nat)

lemma sum_list_bin_counts:
  "\<forall>p\<in>set xs. f p < (n::nat) \<Longrightarrow>
   sum_list (map (\<lambda>k. length (filter (\<lambda>p. f p = k) xs)) [0..<n]) = length xs"
proof (induction xs)
  case Nil
  then show ?case by simp
next
  case (Cons p xs)
  have "sum_list (map (\<lambda>k. length (filter (\<lambda>q. f q = k) (p # xs))) [0..<n])
        = sum_list (map (\<lambda>k. (if f p = k then 1 else 0)
                               + length (filter (\<lambda>q. f q = k) xs)) [0..<n])"
    by (rule arg_cong [where f = sum_list]) simp
  also have "\<dots> = sum_list (map (\<lambda>k. if f p = k then 1 else 0) [0..<n])
                   + sum_list (map (\<lambda>k. length (filter (\<lambda>q. f q = k) xs)) [0..<n])"
    by (rule sum_list_addf)
  also have "\<dots> = 1 + length xs"
    using Cons by (simp add: sum_list_indicator)
  finally show ?case by simp
qed

lemma sum_list_ndi_histogram: "sum_list (ndi_histogram im) = length im"
  unfolding ndi_histogram_def
  by (rule sum_list_bin_counts) (simp add: bin_of_uint8 unat_uint8_less)

lemma length_cumsum_from: "length (cumsum_from acc xs) = length xs"
  by (induction xs arbitrary: acc) simp_all

lemma cumsum_from_bounds:
  "y \<in> set (cumsum_from acc xs) \<Longrightarrow> acc \<le> y \<and> y \<le> acc + sum_list xs"
proof (induction xs arbitrary: acc)
  case Nil
  then show ?case by simp
next
  case (Cons x xs)
  from Cons.prems have "y = acc + x \<or> y \<in> set (cumsum_from (acc + x) xs)" by simp
  then show ?case
  proof
    assume "y = acc + x" then show ?thesis by simp
  next
    assume "y \<in> set (cumsum_from (acc + x) xs)"
    from Cons.IH [OF this] show ?thesis by simp
  qed
qed

lemma sorted_cumsum_from: "sorted (cumsum_from acc xs)"
proof (induction xs arbitrary: acc)
  case Nil
  show ?case by simp
next
  case (Cons x xs)
  have "acc + x \<le> y" if "y \<in> set (cumsum_from (acc + x) xs)" for y
    using cumsum_from_bounds [OF that] by simp
  with Cons.IH [of "acc + x"] show ?case by simp
qed

lemma last_cumsum_from: "xs \<noteq> [] \<Longrightarrow> last (cumsum_from acc xs) = acc + sum_list xs"
proof (induction xs arbitrary: acc)
  case Nil
  then show ?case by simp
next
  case (Cons x xs)
  show ?case
  proof (cases xs)
    case Nil
    then show ?thesis by simp
  next
    case (Cons z zs)
    then have "xs \<noteq> []" by simp
    from Cons.IH [OF this, of "acc + x"] Cons show ?thesis by simp
  qed
qed


lemma cdf_nonempty:
  assumes "im \<noteq> []"
  shows "cdf im = map Finite (map (\<lambda>c. real c / real (length im)) (np_cumsum (ndi_histogram im)))"
  unfolding cdf_def Let_def sum_list_ndi_histogram np_true_divide_def
  using assms by simp

text \<open>
  Claim C10. For every non-empty image of unsigned 8-bit intensities, the cumulative
  distribution \<open>hist.cumsum() / hist.sum()\<close> over the 256-bin histogram has 256 finite
  entries, is non-decreasing, lies in \<open>[0, 1]\<close> at every bin and ends with exactly 1.
\<close>

theorem cdf_monotone_unit:
  assumes "im \<noteq> []"
  shows "\<exists>ys. cdf im = map Finite ys \<and> length ys = 256 \<and> sorted ys
           \<and> (\<forall>y\<in>set ys. 0 \<le> y \<and> y \<le> 1) \<and> last ys = 1"
proof -
  let ?n = "length im"
  let ?cs = "np_cumsum (ndi_histogram im)"
  let ?ys = "map (\<lambda>c. real c / real ?n) ?cs"
  have n: "0 < ?n" using assms by simp
  have hist_len: "length (ndi_histogram im) = 256" by (simp add: ndi_histogram_def)
  then have hist_ne: "ndi_histogram im \<noteq> []" by auto
  have len: "length ?ys = 256"
    by (simp add: np_cumsum_def length_cumsum_from hist_len)
  have cs_ne: "?cs \<noteq> []" using len by auto
  have "sorted ?cs" by (simp add: np_cumsum_def sorted_cumsum_from)
  then have srt: "sorted ?ys"
    using n by (simp add: sorted_wrt_map divide_right_mono sorted_wrt_mono_rel [of ?cs "(\<le>)"])
  have bnd: "0 \<le> y \<and> y \<le> 1" if "y \<in> set ?ys" for y
  proof -
    from that obtain c where c: "c \<in> set ?cs" "y = real c / real ?n" by auto
    from cumsum_from_bounds [of c 0 "ndi_histogram im"] c(1)
    have "c \<le> ?n" by (simp add: np_cumsum_def sum_list_ndi_histogram)
    with n c(2) show ?thesis by simp
  qed
  have "last ?cs = ?n"
    using last_cumsum_from [OF hist_ne, of 0] by (simp add: np_cumsum_def sum_list_ndi_histogram)
  then have lst: "last ?ys = 1"
    using n cs_ne by (simp add: last_map)
  from cdf_nonempty [OF assms] len srt bnd lst show ?thesis by blast
qed

theorem cdf_monotone_unit_witness:
  "[3, 200, 3 :: uint8] \<noteq> []
   \<and> (\<exists>ys. cdf [3, 200, 3] = map Finite ys \<and> length ys = 256 \<and> sorted ys \<and> last ys = 1)
   \<and> sum_list (ndi_histogram [3, 200, 3]) = 3"
  using cdf_monotone_unit [of "[3, 200, 3]"]
  by (auto simp: sum_list_ndi_histogram)

subsection \<open>Volume measurement over the labels\<close>

lemma sum_list_label_indicator:
  "sum_list (map (\<lambda>k. if x = k then 1 else 0) [1..<Suc K]) = (if 1 \<le> x \<and> x \<le> K then (1::nat) else 0)"
  by (auto simp add: interv_sum_list_conv_sum_set_nat simp del: sum_set_upt_conv_sum_list_nat)

lemma sum_list_label_counts:
  "\<forall>x\<in>set xs. x \<le> K \<Longrightarrow>
   sum_list (map (\<lambda>k. length (filter (\<lambda>x. x = k) xs)) [1..<Suc K])
     = length (filter (\<lambda>x. x \<noteq> 0) xs)"
proof (induction xs)
  case Nil
  then show ?case by simp
next
  case (Cons x xs)
  have "sum_list (map (\<lambda>k. length (filter (\<lambda>y. y = k) (x # xs))) [1..<Suc K])
        = sum_list (map (\<lambda>k. (if x = k then 1 else 0)
                               + length (filter (\<lambda>y. y = k) xs)) [1..<Suc K])"
    by (rule arg_cong [where f = sum_list]) simp
  also have "\<dots> = sum_list (map (\<lambda>k. if x = k then 1 else 0) [1..<Suc K])
                   + sum_list (map (\<lambda>k. length (filter (\<lambda>y. y = k) xs)) [1..<Suc K])"
    by (rule sum_list_addf)
  also have "\<dots> = (if x \<noteq> 0 then 1 else 0) + length (filter (\<lambda>y. y \<noteq> 0) xs)"
    using Cons by (simp only: sum_list_label_indicator) auto
  finally show ?case by simp
qed

lemma sum_list_measure_volume:
  "sum_list (map (\<lambda>l. measure_volume lm l dv) ls)
     = real (sum_list (map (count_voxels lm) ls)) * dv"
  by (induction ls) (simp_all add: measure_volume_def algebra_simps)

text \<open>
  Claim C6. For every label map whose labels are among \<open>0..K\<close> and every voxel volume
  (in particular every positive one), the measurements of the labels \<open>1..K\<close> add up to
  the measurement of all non-background voxels; the measurement of one label is the
  number of voxels equal to it times the voxel volume.
\<close>

theorem measure_volume_conserved:
  assumes "\<forall>l\<in>set (voxels label_map). l \<le> K"
  shows "sum_list (map (\<lambda>l. measure_volume label_map l dv) [1..<Suc K])
           = measure_nonbackground label_map dv
         \<and> (\<forall>l. measure_volume label_map l dv = real (count_voxels label_map l) * dv)"
proof -
  have eq: "sum_list (map (count_voxels label_map) [1..<Suc K])
          = length (filter (\<lambda>l. l \<noteq> 0) (voxels label_map))"
    unfolding count_voxels_def by (rule sum_list_label_counts [OF assms])
  have "sum_list (map (\<lambda>l. measure_volume label_map l dv) [1..<Suc K])
          = real (sum_list (map (count_voxels label_map) [1..<Suc K])) * dv"
    by (rule sum_list_measure_volume)
  also have "\<dots> = measure_nonbackground label_map dv"
    by (simp only: eq measure_nonbackground_def)
  finally have total: "sum_list (map (\<lambda>l. measure_volume label_map l dv) [1..<Suc K])
          = measure_nonbackground label_map dv" .
  have each: "\<forall>l. measure_volume label_map l dv = real (count_voxels label_map l) * dv"
    by (simp add: measure_volume_def)
  from total each show ?thesis by (rule conjI)
qed

theorem measure_volume_conserved_witness:
  "list_all (\<lambda>l. l \<le> 2) (voxels [[[0, 1, 1], [2, 0, 2]], [[2, 1, 0], [0, 0, 2 :: nat]]])
   \<and> measure_volume [[[0, 1, 1], [2, 0, 2]], [[2, 1, 0], [0, 0, 2]]] 1 (3 / 2) = 9 / 2
   \<and> measure_volume [[[0, 1, 1], [2, 0, 2]], [[2, 1, 0], [0, 0, 2]]] 2 (3 / 2) = 6
   \<and> sum_list (map (\<lambda>l. measure_volume [[[0, 1, 1], [2, 0, 2]], [[2, 1, 0], [0, 0, 2]]] l (3 / 2))
                [1..<Suc 2])
       = measure_nonbackground [[[0, 1, 1], [2, 0, 2]], [[2, 1, 0], [0, 0, 2]]] (3 / 2)
   \<and> measure_nonbackground [[[0, 1, 1], [2, 0, 2]], [[2, 1, 0], [0, 0, 2]]] (3 / 2) = 21 / 2"
proof -
  let ?lm = "[[[0, 1, 1], [2, 0, 2]], [[2, 1, 0], [0, 0, 2 :: nat]]]"
  have bound: "\<forall>l\<in>set (voxels ?lm). l \<le> 2" by (simp add: voxels_def)
  have vals: "list_all (\<lambda>l. l \<le> 2) (voxels ?lm)"
    "measure_volume ?lm 1 (3 / 2) = 9 / 2" "measure_volume ?lm 2 (3 / 2) = 6"
    "measure_nonbackground ?lm (3 / 2) = 21 / 2"
    by (simp_all add: voxels_def measure_volume_def count_voxels_def measure_nonbackground_def)
  from measure_volume_conserved [OF bound, of "3 / 2"] vals show ?thesis by blast
qed

subsection \<open>The volume time series\<close>





subsection \<open>Filtering, thresholding and closing\<close>

lemma length_tabulate2: "length (tabulate2 a f) = length a"
  by (simp add: tabulate2_def)

lemma shape_tabulate2: "map length (tabulate2 a f) = map length a"
  by (rule nth_equalityI) (simp_all add: tabulate2_def)

lemma nth_tabulate2:
  "r < length a \<Longrightarrow> c < length (a ! r) \<Longrightarrow> tabulate2 a f ! r ! c = f r c"
  by (simp add: tabulate2_def)

lemma length_window: "length (window im fsize r c) = fsize * fsize"
  by (simp add: window_def window_offsets_def length_concat comp_def sum_list_triv)

lemma shape_binary_dilation: "map length (binary_dilation m) = map length m"
  by (simp add: binary_dilation_def shape_tabulate2)

lemma shape_binary_erosion: "map length (binary_erosion m) = map length m"
  by (simp add: binary_erosion_def shape_tabulate2)

lemma shape_np_where_gt: "map length (np_where_gt a t) = map length a"
  by (simp add: np_where_gt_def)

lemma nth_np_where_gt:
  "r < length a \<Longrightarrow> c < length (a ! r) \<Longrightarrow>
   np_where_gt a t ! r ! c = (if t < a ! r ! c then 1 else 0)"
  by (simp add: np_where_gt_def)

lemma reflect_less: "0 < n \<Longrightarrow> reflect n i < n"
proof -
  assume n: "0 < n"
  let ?m = "i mod (2 * int n)"
  have "0 \<le> ?m" "?m < 2 * int n" using n by simp_all
  then show ?thesis by (auto simp: reflect_def Let_def)
qed

lemma reflect_inside: "0 \<le> i \<Longrightarrow> i < int n \<Longrightarrow> reflect n i = nat i"
  by (simp add: reflect_def Let_def)

lemma mod_mirror:
  fixes i p :: int
  assumes "0 < p"
  shows "(- 1 - i) mod p = p - 1 - i mod p"
proof (rule int_mod_pos_eq [where q = "- (i div p) - 1"])
  have m: "0 \<le> i mod p" "i mod p < p" using assms by simp_all
  have "i = p * (i div p) + i mod p" by simp
  then show "- 1 - i = p * (- (i div p) - 1) + (p - 1 - i mod p)"
    by (simp add: algebra_simps)
  show "0 \<le> p - 1 - i mod p" using m by linarith
  show "p - 1 - i mod p < p" using m by linarith
qed

lemma reflect_mirror_low: "0 < n \<Longrightarrow> reflect n (- 1 - i) = reflect n i"
proof -
  assume n: "0 < n"
  let ?p = "2 * int n"
  let ?m = "i mod ?p"
  have m: "0 \<le> ?m" "?m < ?p" using n by simp_all
  have "(- 1 - i) mod ?p = ?p - 1 - ?m" using n by (intro mod_mirror) simp
  then show ?thesis using m by (auto simp: reflect_def Let_def)
qed

lemma reflect_mirror_high: "0 < n \<Longrightarrow> reflect n (2 * int n - 1 - i) = reflect n i"
proof -
  assume n: "0 < n"
  have "2 * int n - 1 - i = (- 1 - i) + 2 * int n" by simp
  then have "(2 * int n - 1 - i) mod (2 * int n) = (- 1 - i) mod (2 * int n)"
    by (simp only: mod_add_self2)
  then have "reflect n (2 * int n - 1 - i) = reflect n (- 1 - i)"
    by (simp add: reflect_def)
  with reflect_mirror_low [OF n, of i] show ?thesis by simp
qed

lemma median_rank:
  fixes w :: "int list"
  assumes "k < length w"
  shows "sort w ! k \<in> set w
       \<and> length (filter (\<lambda>x. x < sort w ! k) w) \<le> k
       \<and> k < length (filter (\<lambda>x. x \<le> sort w ! k) w)"
proof -
  let ?s = "sort w"
  let ?v = "?s ! k"
  have len: "length ?s = length w" by simp
  have k: "k < length ?s" using assms by simp
  have srt: "sorted ?s" by simp
  have "?v \<in> set ?s" using k by (rule nth_mem)
  then have mem: "?v \<in> set w" by simp
  have cnt: "length (filter P w) = length (filter P ?s)" for P
    by (simp add: filter_sort)
  have split: "?s = take k ?s @ drop k ?s" by simp
  have "\<forall>x\<in>set (drop k ?s). ?v \<le> x"
  proof
    fix x assume "x \<in> set (drop k ?s)"
    then obtain i where "i < length (drop k ?s)" "x = drop k ?s ! i"
      by (auto simp: in_set_conv_nth)
    then have "x = ?s ! (k + i)" "k + i < length ?s" by simp_all
    with sorted_nth_mono [OF srt, of k "k + i"] show "?v \<le> x" by simp
  qed
  then have "\<forall>x\<in>set (drop k ?s). \<not> x < ?v" by (simp add: not_less)
  then have "filter (\<lambda>x. x < ?v) (drop k ?s) = []" by (simp only: filter_empty_conv)
  then have "filter (\<lambda>x. x < ?v) ?s = filter (\<lambda>x. x < ?v) (take k ?s)"
    by (subst split) (simp only: filter_append append_Nil2)
  then have "length (filter (\<lambda>x. x < ?v) ?s) \<le> length (take k ?s)"
    by (simp only: length_filter_le)
  then have lt: "length (filter (\<lambda>x. x < ?v) w) \<le> k"
    using k by (simp add: cnt [of "\<lambda>x. x < ?v"])
  have "\<forall>x\<in>set (take (Suc k) ?s). x \<le> ?v"
  proof
    fix x assume "x \<in> set (take (Suc k) ?s)"
    then obtain i where "i < Suc k" "i < length ?s" "x = ?s ! i"
      by (auto simp: in_set_conv_nth)
    with sorted_nth_mono [OF srt, of i k] k show "x \<le> ?v" by simp
  qed
  then have all_le: "filter (\<lambda>x. x \<le> ?v) (take (Suc k) ?s) = take (Suc k) ?s"
    by (simp only: filter_id_conv)
  have "filter (\<lambda>x. x \<le> ?v) ?s
      = filter (\<lambda>x. x \<le> ?v) (take (Suc k) ?s @ drop (Suc k) ?s)"
    by (simp only: append_take_drop_id)
  also have "\<dots> = take (Suc k) ?s @ filter (\<lambda>x. x \<le> ?v) (drop (Suc k) ?s)"
    by (simp only: filter_append all_le)
  finally have "length (filter (\<lambda>x. x \<le> ?v) ?s)
      = length (take (Suc k) ?s) + length (filter (\<lambda>x. x \<le> ?v) (drop (Suc k) ?s))"
    by (simp only: length_append)
  then have "length (take (Suc k) ?s) \<le> length (filter (\<lambda>x. x \<le> ?v) ?s)"
    by linarith
  then have le: "k < length (filter (\<lambda>x. x \<le> ?v) w)"
    using k by (simp add: cnt [of "\<lambda>x. x \<le> ?v"])
  from mem lt le show ?thesis by blast
qed

lemma nth_concat_uniform:
  "\<forall>xs\<in>set xss. length xs = n \<Longrightarrow> i < length xss \<Longrightarrow> j < n \<Longrightarrow>
   concat xss ! (i * n + j) = xss ! i ! j"
proof (induction xss arbitrary: i)
  case Nil
  then show ?case by simp
next
  case (Cons xs xss)
  show ?case
  proof (cases i)
    case 0
    with Cons.prems show ?thesis by (simp add: nth_append)
  next
    case (Suc i')
    with Cons.prems have "concat xss ! (i' * n + j) = xss ! i' ! j"
      by (intro Cons.IH) simp_all
    with Cons.prems Suc show ?thesis by (simp add: nth_append)
  qed
qed

lemma nth_window:
  assumes "i < fsize" "j < fsize"
  shows "window im fsize r c ! (i * fsize + j)
           = pixel_reflect im (int r + int i - int (fsize div 2))
                              (int c + int j - int (fsize div 2))"
proof -
  let ?rows = "map (\<lambda>dr. map (\<lambda>dc. pixel_reflect im (int r + dr) (int c + dc))
                           (window_offsets fsize)) (window_offsets fsize)"
  have len: "length (window_offsets fsize) = fsize" by (simp add: window_offsets_def)
  have "\<forall>xs\<in>set ?rows. length xs = fsize" by (simp add: len)
  moreover have "i < length ?rows" using assms len by simp
  ultimately have "concat ?rows ! (i * fsize + j) = ?rows ! i ! j"
    using assms(2) by (rule nth_concat_uniform)
  also have "\<dots> = pixel_reflect im (int r + (int i - int (fsize div 2)))
                              (int c + (int j - int (fsize div 2)))"
    using assms by (simp add: window_offsets_def)
  finally show ?thesis by (simp add: window_def algebra_simps)
qed

lemma at_or_false_nat:
  "at_or_false m (int r) (int c) = (r < length m \<and> c < length (m ! r) \<and> m ! r ! c)"
  by (simp add: at_or_false_def)

lemma at_or_false_up:
  "at_or_false m (int r + - 1) (int c + 0)
     = (0 < r \<and> r - 1 < length m \<and> c < length (m ! (r - 1)) \<and> m ! (r - 1) ! c)"
proof (cases r)
  case 0
  then show ?thesis by (simp add: at_or_false_def)
next
  case (Suc r')
  then have "int r + - 1 = int r'" by simp
  then show ?thesis using Suc by (simp add: at_or_false_nat)
qed

lemma at_or_false_left:
  "at_or_false m (int r + 0) (int c + - 1)
     = (r < length m \<and> 0 < c \<and> c - 1 < length (m ! r) \<and> m ! r ! (c - 1))"
proof (cases c)
  case 0
  then show ?thesis by (simp add: at_or_false_def)
next
  case (Suc c')
  then have "int c + - 1 = int c'" by simp
  then show ?thesis using Suc by (auto simp add: at_or_false_nat)
qed

lemma at_or_false_down:
  "at_or_false m (int r + 1) (int c + 0)
     = (r + 1 < length m \<and> c < length (m ! (r + 1)) \<and> m ! (r + 1) ! c)"
proof -
  have "int r + 1 = int (r + 1)" by simp
  then show ?thesis by (simp only: at_or_false_nat add_0_right)
qed

lemma at_or_false_right:
  "at_or_false m (int r + 0) (int c + 1)
     = (r < length m \<and> c + 1 < length (m ! r) \<and> m ! r ! (c + 1))"
proof -
  have "int c + 1 = int (c + 1)" by simp
  then show ?thesis by (simp only: at_or_false_nat add_0_right)
qed

lemma at_or_false_here:
  "at_or_false m (int r + 0) (int c + 0) = (r < length m \<and> c < length (m ! r) \<and> m ! r ! c)"
  by (simp only: at_or_false_nat add_0_right)

lemma nth_binary_dilation:
  assumes rect: "\<forall>row\<in>set m. length row = w" and r: "r < length m" and c: "c < w"
  shows "binary_dilation m ! r ! c
           = (m ! r ! c \<or> (0 < r \<and> m ! (r - 1) ! c) \<or> (r + 1 < length m \<and> m ! (r + 1) ! c)
              \<or> (0 < c \<and> m ! r ! (c - 1)) \<or> (c + 1 < w \<and> m ! r ! (c + 1)))"
proof -
  have row: "length (m ! k) = w" if "k < length m" for k using rect that by simp
  have "binary_dilation m ! r ! c
          = list_ex (\<lambda>(dr, dc). at_or_false m (int r + dr) (int c + dc)) cross"
    using r c row [OF r] by (simp add: binary_dilation_def nth_tabulate2)
  also have "\<dots> = (at_or_false m (int r + - 1) (int c + 0) \<or> at_or_false m (int r + 0) (int c + - 1)
       \<or> at_or_false m (int r + 0) (int c + 0) \<or> at_or_false m (int r + 0) (int c + 1)
       \<or> at_or_false m (int r + 1) (int c + 0))"
    by (simp only: cross_def list_ex_Cons_iff list_ex_Nil_iff prod.case) simp
  also have "\<dots> = (m ! r ! c \<or> (0 < r \<and> m ! (r - 1) ! c) \<or> (r + 1 < length m \<and> m ! (r + 1) ! c)
              \<or> (0 < c \<and> m ! r ! (c - 1)) \<or> (c + 1 < w \<and> m ! r ! (c + 1)))"
    unfolding at_or_false_up at_or_false_left at_or_false_here at_or_false_right at_or_false_down
    using r c row by auto
  finally show ?thesis .
qed

lemma nth_binary_erosion:
  assumes rect: "\<forall>row\<in>set m. length row = w" and r: "r < length m" and c: "c < w"
  shows "binary_erosion m ! r ! c
           = (m ! r ! c \<and> 0 < r \<and> m ! (r - 1) ! c \<and> r + 1 < length m \<and> m ! (r + 1) ! c
              \<and> 0 < c \<and> m ! r ! (c - 1) \<and> c + 1 < w \<and> m ! r ! (c + 1))"
proof -
  have row: "length (m ! k) = w" if "k < length m" for k using rect that by simp
  have "binary_erosion m ! r ! c
          = list_all (\<lambda>(dr, dc). at_or_false m (int r + dr) (int c + dc)) cross"
    using r c row [OF r] by (simp add: binary_erosion_def nth_tabulate2)
  also have "\<dots> = (at_or_false m (int r + - 1) (int c + 0) \<and> at_or_false m (int r + 0) (int c + - 1)
       \<and> at_or_false m (int r + 0) (int c + 0) \<and> at_or_false m (int r + 0) (int c + 1)
       \<and> at_or_false m (int r + 1) (int c + 0))"
    by (simp only: cross_def list_all_Cons_iff list_all_Nil_iff prod.case) simp
  also have "\<dots> = (m ! r ! c \<and> 0 < r \<and> m ! (r - 1) ! c \<and> r + 1 < length m \<and> m ! (r + 1) ! c
              \<and> 0 < c \<and> m ! r ! (c - 1) \<and> c + 1 < w \<and> m ! r ! (c + 1))"
    unfolding at_or_false_up at_or_false_left at_or_false_here at_or_false_right at_or_false_down
    using r c row by auto
  finally show ?thesis .
qed

lemma rect_of_shape:
  "map length a = map length b \<Longrightarrow> \<forall>row\<in>set b. length row = w \<Longrightarrow> \<forall>row\<in>set a. length row = w"
proof
  fix row assume sh: "map length a = map length b" and rect: "\<forall>row\<in>set b. length row = w"
    and "row \<in> set a"
  then obtain k where k: "k < length a" "row = a ! k" by (auto simp: in_set_conv_nth)
  from sh have "length a = length b" by (rule map_eq_imp_length_eq)
  with k have kb: "k < length b" by simp
  from sh k kb have "length (a ! k) = length (b ! k)" by (metis nth_map)
  with rect kb k show "length row = w" by simp
qed

lemma shape_map_map: "map length (map (map g) a) = map length a"
  by simp

text \<open>
  Claim C4. For every image (rows of one length) and every positive window size,
  \<open>filter_and_mask\<close> first applies the median filter: each filtered element is the
  median of the window of that size around it, that is a value of the window with at
  most half of the window below it and more than half of the window not above it; the
  window holds the elements at the \<open>fsize\<close> by \<open>fsize\<close> offsets, read by reflection at
  the edges. Then it thresholds: an element of the start mask is set exactly where the
  filtered intensity exceeds the threshold. Then it closes the mask: the dilation sets
  an element when it or one of its face neighbours inside the image is set, and the
  erosion keeps an element of the dilated mask when it and its four face neighbours are
  all inside the image and set. Every stage, and so the mask returned, has the shape of
  the image.
\<close>

theorem filter_and_mask_pipeline:
  assumes size_pos: "0 < fsize" and rect: "\<forall>row\<in>set im. length row = w"
  shows "\<exists>im_filt (mask_start :: nat list list) dil m.
       median_filter im fsize = Inr im_filt
     \<and> filter_and_mask im fsize threshold = Inr m
     \<and> map length im_filt = map length im \<and> map length mask_start = map length im
     \<and> map length dil = map length im \<and> map length m = map length im
     \<and> (\<forall>r<length im. \<forall>c<w.
           length (window im fsize r c) = fsize * fsize
         \<and> (\<forall>i<fsize. \<forall>j<fsize.
               window im fsize r c ! (i * fsize + j)
                 = im ! reflect (length im) (int r + int i - int (fsize div 2))
                      ! reflect w (int c + int j - int (fsize div 2)))
         \<and> im_filt ! r ! c \<in> set (window im fsize r c)
         \<and> length (filter (\<lambda>x. x < im_filt ! r ! c) (window im fsize r c)) \<le> fsize * fsize div 2
         \<and> fsize * fsize div 2 < length (filter (\<lambda>x. x \<le> im_filt ! r ! c) (window im fsize r c))
         \<and> mask_start ! r ! c = (if threshold < im_filt ! r ! c then 1 else 0)
         \<and> dil ! r ! c
             = (mask_start ! r ! c \<noteq> 0
                \<or> (0 < r \<and> mask_start ! (r - 1) ! c \<noteq> 0)
                \<or> (r + 1 < length im \<and> mask_start ! (r + 1) ! c \<noteq> 0)
                \<or> (0 < c \<and> mask_start ! r ! (c - 1) \<noteq> 0)
                \<or> (c + 1 < w \<and> mask_start ! r ! (c + 1) \<noteq> 0))
         \<and> m ! r ! c
             = (dil ! r ! c
                \<and> 0 < r \<and> dil ! (r - 1) ! c
                \<and> r + 1 < length im \<and> dil ! (r + 1) ! c
                \<and> 0 < c \<and> dil ! r ! (c - 1)
                \<and> c + 1 < w \<and> dil ! r ! (c + 1)))
     \<and> (\<forall>n i. 0 < n \<longrightarrow>
           reflect n i < n
         \<and> (0 \<le> i \<and> i < int n \<longrightarrow> reflect n i = nat i)
         \<and> reflect n (- 1 - i) = reflect n i
         \<and> reflect n (2 * int n - 1 - i) = reflect n i)"
proof -
  let ?k = "fsize * fsize div 2"
  let ?filt = "tabulate2 im (\<lambda>r c. sort (window im fsize r c) ! ?k)"
  let ?start = "np_where_gt ?filt threshold"
  let ?b = "map (map (\<lambda>v. v \<noteq> 0)) ?start"
  let ?dil = "binary_dilation ?b"
  let ?m = "binary_erosion ?dil"
  have filt: "median_filter im fsize = Inr ?filt"
    using size_pos by (simp add: median_filter_def)
  have run: "filter_and_mask im fsize threshold = Inr ?m"
    by (simp add: filter_and_mask_def filt binary_closing_def)
  have sh_filt: "map length ?filt = map length im" by (rule shape_tabulate2)
  have sh_start: "map length ?start = map length im"
    by (simp only: shape_np_where_gt sh_filt)
  have sh_b: "map length ?b = map length im"
    by (simp only: shape_map_map sh_start)
  have sh_dil: "map length ?dil = map length im"
    by (simp only: shape_binary_dilation sh_b)
  have sh_m: "map length ?m = map length im"
    by (simp only: shape_binary_erosion sh_dil)
  have len_filt: "length ?filt = length im" by (rule length_tabulate2)
  have len_start: "length ?start = length im"
    using sh_start by (rule map_eq_imp_length_eq)
  have len_b: "length ?b = length im" using sh_b by (rule map_eq_imp_length_eq)
  have len_dil: "length ?dil = length im" using sh_dil by (rule map_eq_imp_length_eq)
  have rect_filt: "\<forall>row\<in>set ?filt. length row = w" by (rule rect_of_shape [OF sh_filt rect])
  have rect_start: "\<forall>row\<in>set ?start. length row = w" by (rule rect_of_shape [OF sh_start rect])
  have rect_b: "\<forall>row\<in>set ?b. length row = w" by (rule rect_of_shape [OF sh_b rect])
  have rect_dil: "\<forall>row\<in>set ?dil. length row = w" by (rule rect_of_shape [OF sh_dil rect])
  have row_im: "length (im ! k) = w" if "k < length im" for k using rect that by simp
  have row_start: "length (?start ! k) = w" if "k < length im" for k
    using rect_start that len_start by simp
  have b_nth: "?b ! r ! c = (?start ! r ! c \<noteq> 0)" if "r < length im" "c < w" for r c
    using that len_start row_start [OF that(1)] by simp
  have k: "?k < fsize * fsize" using size_pos by simp
  have point: "length (window im fsize r c) = fsize * fsize
         \<and> (\<forall>i<fsize. \<forall>j<fsize.
               window im fsize r c ! (i * fsize + j)
                 = im ! reflect (length im) (int r + int i - int (fsize div 2))
                      ! reflect w (int c + int j - int (fsize div 2)))
         \<and> ?filt ! r ! c \<in> set (window im fsize r c)
         \<and> length (filter (\<lambda>x. x < ?filt ! r ! c) (window im fsize r c)) \<le> ?k
         \<and> ?k < length (filter (\<lambda>x. x \<le> ?filt ! r ! c) (window im fsize r c))
         \<and> ?start ! r ! c = (if threshold < ?filt ! r ! c then 1 else 0)
         \<and> ?dil ! r ! c
             = (?start ! r ! c \<noteq> 0
                \<or> (0 < r \<and> ?start ! (r - 1) ! c \<noteq> 0)
                \<or> (r + 1 < length im \<and> ?start ! (r + 1) ! c \<noteq> 0)
                \<or> (0 < c \<and> ?start ! r ! (c - 1) \<noteq> 0)
                \<or> (c + 1 < w \<and> ?start ! r ! (c + 1) \<noteq> 0))
         \<and> ?m ! r ! c
             = (?dil ! r ! c
                \<and> 0 < r \<and> ?dil ! (r - 1) ! c
                \<and> r + 1 < length im \<and> ?dil ! (r + 1) ! c
                \<and> 0 < c \<and> ?dil ! r ! (c - 1)
                \<and> c + 1 < w \<and> ?dil ! r ! (c + 1))"
    if r: "r < length im" and c: "c < w" for r c
  proof -
    have H: "0 < length im" using r by (cases im) simp_all
    have wlen: "length (window im fsize r c) = fsize * fsize" by (rule length_window)
    have entries: "\<forall>i<fsize. \<forall>j<fsize.
               window im fsize r c ! (i * fsize + j)
                 = im ! reflect (length im) (int r + int i - int (fsize div 2))
                      ! reflect w (int c + int j - int (fsize div 2))"
    proof (intro allI impI)
      fix i j assume ij: "i < fsize" "j < fsize"
      have "reflect (length im) (int r + int i - int (fsize div 2)) < length im"
        by (rule reflect_less [OF H])
      then have "length (im ! reflect (length im) (int r + int i - int (fsize div 2))) = w"
        by (rule row_im)
      then show "window im fsize r c ! (i * fsize + j)
                 = im ! reflect (length im) (int r + int i - int (fsize div 2))
                      ! reflect w (int c + int j - int (fsize div 2))"
        by (simp add: nth_window [OF ij] pixel_reflect_def Let_def)
    qed
    have val: "?filt ! r ! c = sort (window im fsize r c) ! ?k"
      using r c row_im [OF r] by (simp add: nth_tabulate2)
    have "?k < length (window im fsize r c)" using k by (simp only: wlen)
    from median_rank [OF this]
    have med: "?filt ! r ! c \<in> set (window im fsize r c)
         \<and> length (filter (\<lambda>x. x < ?filt ! r ! c) (window im fsize r c)) \<le> ?k
         \<and> ?k < length (filter (\<lambda>x. x \<le> ?filt ! r ! c) (window im fsize r c))"
      by (simp only: val)
    have "length (?filt ! r) = w" using rect_filt r len_filt by simp
    then have thr: "?start ! r ! c = (if threshold < ?filt ! r ! c then 1 else 0)"
      using r c len_filt by (simp add: nth_np_where_gt)
    have "?dil ! r ! c
          = (?b ! r ! c \<or> (0 < r \<and> ?b ! (r - 1) ! c) \<or> (r + 1 < length ?b \<and> ?b ! (r + 1) ! c)
              \<or> (0 < c \<and> ?b ! r ! (c - 1)) \<or> (c + 1 < w \<and> ?b ! r ! (c + 1)))"
      using r c by (intro nth_binary_dilation [OF rect_b]) (simp_all only: len_b)
    also have "\<dots> = (?start ! r ! c \<noteq> 0
                \<or> (0 < r \<and> ?start ! (r - 1) ! c \<noteq> 0)
                \<or> (r + 1 < length im \<and> ?start ! (r + 1) ! c \<noteq> 0)
                \<or> (0 < c \<and> ?start ! r ! (c - 1) \<noteq> 0)
                \<or> (c + 1 < w \<and> ?start ! r ! (c + 1) \<noteq> 0))"
    proof -
      have a: "?b ! r ! c = (?start ! r ! c \<noteq> 0)" by (rule b_nth [OF r c])
      have b: "(0 < r \<and> ?b ! (r - 1) ! c) = (0 < r \<and> ?start ! (r - 1) ! c \<noteq> 0)"
        using r c b_nth [of "r - 1" c] by auto
      have d: "(r + 1 < length ?b \<and> ?b ! (r + 1) ! c)
                 = (r + 1 < length im \<and> ?start ! (r + 1) ! c \<noteq> 0)"
        using c b_nth [of "r + 1" c] len_b by auto
      have e: "(0 < c \<and> ?b ! r ! (c - 1)) = (0 < c \<and> ?start ! r ! (c - 1) \<noteq> 0)"
        using r c b_nth [of r "c - 1"] by auto
      have f: "(c + 1 < w \<and> ?b ! r ! (c + 1)) = (c + 1 < w \<and> ?start ! r ! (c + 1) \<noteq> 0)"
        using r b_nth [of r "c + 1"] by auto
      show ?thesis by (simp only: a b d e f)
    qed
    finally have dil: "?dil ! r ! c
             = (?start ! r ! c \<noteq> 0
                \<or> (0 < r \<and> ?start ! (r - 1) ! c \<noteq> 0)
                \<or> (r + 1 < length im \<and> ?start ! (r + 1) ! c \<noteq> 0)
                \<or> (0 < c \<and> ?start ! r ! (c - 1) \<noteq> 0)
                \<or> (c + 1 < w \<and> ?start ! r ! (c + 1) \<noteq> 0))" .
    have "?m ! r ! c
             = (?dil ! r ! c
                \<and> 0 < r \<and> ?dil ! (r - 1) ! c
                \<and> r + 1 < length ?dil \<and> ?dil ! (r + 1) ! c
                \<and> 0 < c \<and> ?dil ! r ! (c - 1)
                \<and> c + 1 < w \<and> ?dil ! r ! (c + 1))"
      using r c by (intro nth_binary_erosion [OF rect_dil]) (simp_all only: len_dil)
    then have ero: "?m ! r ! c
             = (?dil ! r ! c
                \<and> 0 < r \<and> ?dil ! (r - 1) ! c
                \<and> r + 1 < length im \<and> ?dil ! (r + 1) ! c
                \<and> 0 < c \<and> ?dil ! r ! (c - 1)
                \<and> c + 1 < w \<and> ?dil ! r ! (c + 1))"
      by (simp only: len_dil)
    from med have med1: "?filt ! r ! c \<in> set (window im fsize r c)"
      and med2: "length (filter (\<lambda>x. x < ?filt ! r ! c) (window im fsize r c)) \<le> ?k"
      and med3: "?k < length (filter (\<lambda>x. x \<le> ?filt ! r ! c) (window im fsize r c))"
      by (rule conjunct1, rule conjunct2 [THEN conjunct1], rule conjunct2 [THEN conjunct2])
    note parts = wlen entries med1 med2 med3 thr dil ero
    show ?thesis by (intro conjI) (rule parts)+
  qed
  have refl: "\<forall>n i. 0 < n \<longrightarrow>
           reflect n i < n
         \<and> (0 \<le> i \<and> i < int n \<longrightarrow> reflect n i = nat i)
         \<and> reflect n (- 1 - i) = reflect n i
         \<and> reflect n (2 * int n - 1 - i) = reflect n i"
    by (simp add: reflect_less reflect_inside reflect_mirror_low reflect_mirror_high)
  have all: "\<forall>r<length im. \<forall>c<w.
           length (window im fsize r c) = fsize * fsize
         \<and> (\<forall>i<fsize. \<forall>j<fsize.
               window im fsize r c ! (i * fsize + j)
                 = im ! reflect (length im) (int r + int i - int (fsize div 2))
                      ! reflect w (int c + int j - int (fsize div 2)))
         \<and> ?filt ! r ! c \<in> set (window im fsize r c)
         \<and> length (filter (\<lambda>x. x < ?filt ! r ! c) (window im fsize r c)) \<le> ?k
         \<and> ?k < length (filter (\<lambda>x. x \<le> ?filt ! r ! c) (window im fsize r c))
         \<and> ?start ! r ! c = (if threshold < ?filt ! r ! c then 1 else 0)
         \<and> ?dil ! r ! c
             = (?start ! r ! c \<noteq> 0
                \<or> (0 < r \<and> ?start ! (r - 1) ! c \<noteq> 0)
                \<or> (r + 1 < length im \<and> ?start ! (r + 1) ! c \<noteq> 0)
                \<or> (0 < c \<and> ?start ! r ! (c - 1) \<noteq> 0)
                \<or> (c + 1 < w \<and> ?start ! r ! (c + 1) \<noteq> 0))
         \<and> ?m ! r ! c
             = (?dil ! r ! c
                \<and> 0 < r \<and> ?dil ! (r - 1) ! c
                \<and> r + 1 < length im \<and> ?dil ! (r + 1) ! c
                \<and> 0 < c \<and> ?dil ! r ! (c - 1)
                \<and> c + 1 < w \<and> ?dil ! r ! (c + 1))"
    by (intro allI impI) (rule point, assumption+)
  note facts = filt run sh_filt sh_start sh_dil sh_m all refl
  have together: "median_filter im fsize = Inr ?filt
     \<and> filter_and_mask im fsize threshold = Inr ?m
     \<and> map length ?filt = map length im \<and> map length ?start = map length im
     \<and> map length ?dil = map length im \<and> map length ?m = map length im
     \<and> (\<forall>r<length im. \<forall>c<w.
           length (window im fsize r c) = fsize * fsize
         \<and> (\<forall>i<fsize. \<forall>j<fsize.
               window im fsize r c ! (i * fsize + j)
                 = im ! reflect (length im) (int r + int i - int (fsize div 2))
                      ! reflect w (int c + int j - int (fsize div 2)))
         \<and> ?filt ! r ! c \<in> set (window im fsize r c)
         \<and> length (filter (\<lambda>x. x < ?filt ! r ! c) (window im fsize r c)) \<le> fsize * fsize div 2
         \<and> fsize * fsize div 2 < length (filter (\<lambda>x. x \<le> ?filt ! r ! c) (window im fsize r c))
         \<and> ?start ! r ! c = (if threshold < ?filt ! r ! c then 1 else 0)
         \<and> ?dil ! r ! c
             = (?start ! r ! c \<noteq> 0
                \<or> (0 < r \<and> ?start ! (r - 1) ! c \<noteq> 0)
                \<or> (r + 1 < length im \<and> ?start ! (r + 1) ! c \<noteq> 0)
                \<or> (0 < c \<and> ?start ! r ! (c - 1) \<noteq> 0)
                \<or> (c + 1 < w \<and> ?start ! r ! (c + 1) \<noteq> 0))
         \<and> ?m ! r ! c
             = (?dil ! r ! c
                \<and> 0 < r \<and> ?dil ! (r - 1) ! c
                \<and> r + 1 < length im \<and> ?dil ! (r + 1) ! c
                \<and> 0 < c \<and> ?dil ! r ! (c - 1)
                \<and> c + 1 < w \<and> ?dil ! r ! (c + 1)))
     \<and> (\<forall>n i. 0 < n \<longrightarrow>
           reflect n i < n
         \<and> (0 \<le> i \<and> i < int n \<longrightarrow> reflect n i = nat i)
         \<and> reflect n (- 1 - i) = reflect n i
         \<and> reflect n (2 * int n - 1 - i) = reflect n i)"
    by (intro conjI) (rule facts)+
  show ?thesis by (intro exI) (rule together)
qed

text \<open>
  The notebook's own example for the median filter (\<open>assert im_filt[1,1] == 49\<close>).
\<close>

lemma median_filter_notebook_example:
  "median_filter [[93, 36, 87], [18, 49, 51], [45, 32, 63]] 3
     = Inr [[49, 51, 51], [45, 49, 51], [45, 45, 51]]"
  by code_simp

theorem filter_and_mask_pipeline_witness:
  "(0::nat) < 3 \<and> list_all (\<lambda>row. length row = 3) [[93, 36, 87], [18, 49, 51], [45, 32, 63 :: int]]
   \<and> median_filter [[93, 36, 87], [18, 49, 51], [45, 32, 63]] 3
       = Inr [[49, 51, 51], [45, 49, 51], [45, 45, 51]]
   \<and> filter_and_mask [[93, 36, 87], [18, 49, 51], [45, 32, 63]] 3 48
       = Inr [[False, False, False], [False, True, False], [False, False, False]]
   \<and> (\<exists>m. filter_and_mask [[93, 36, 87], [18, 49, 51], [45, 32, 63]] 3 48 = Inr m
          \<and> map length m = map length [[93, 36, 87], [18, 49, 51], [45, 32, 63 :: int]])
   \<and> (0::nat) < 1 \<and> list_all (\<lambda>row. length row = 4) [[0, 0, 0, 0], [0, 100, 0, 0], [0, 0, 0, 0], [0, 0, 0, 0 :: int]]
   \<and> filter_and_mask [[0, 0, 0, 0], [0, 100, 0, 0], [0, 0, 0, 0], [0, 0, 0, 0]] 1 60
       = Inr [[False, False, False, False], [False, True, False, False],
              [False, False, False, False], [False, False, False, False]]
   \<and> (\<exists>m. filter_and_mask [[0, 0, 0, 0], [0, 100, 0, 0], [0, 0, 0, 0], [0, 0, 0, 0]] 1 60 = Inr m
          \<and> map length m = map length [[0, 0, 0, 0], [0, 100, 0, 0], [0, 0, 0, 0], [0, 0, 0, 0 :: int]])"
proof -
  let ?ex = "[[93, 36, 87], [18, 49, 51], [45, 32, 63 :: int]]"
  let ?dot = "[[0, 0, 0, 0], [0, 100, 0, 0], [0, 0, 0, 0], [0, 0, 0, 0 :: int]]"
  have pos3: "(0::nat) < 3" and pos1: "(0::nat) < 1" by simp_all
  have rect3: "\<forall>row\<in>set ?ex. length row = 3" by simp
  have rect4: "\<forall>row\<in>set ?dot. length row = 4" by simp
  have l3: "list_all (\<lambda>row. length row = 3) ?ex" by simp
  have l4: "list_all (\<lambda>row. length row = 4) ?dot" by simp
  have a: "median_filter ?ex 3 = Inr [[49, 51, 51], [45, 49, 51], [45, 45, 51]]"
    by code_simp
  have b: "filter_and_mask ?ex 3 48
             = Inr [[False, False, False], [False, True, False], [False, False, False]]"
    by code_simp
  have c: "filter_and_mask ?dot 1 60
             = Inr [[False, False, False, False], [False, True, False, False],
              [False, False, False, False], [False, False, False, False]]"
    by code_simp
  have d: "\<exists>m. filter_and_mask ?ex 3 48 = Inr m \<and> map length m = map length ?ex"
    using filter_and_mask_pipeline [OF pos3 rect3, of 48]
    by (elim exE conjE) (intro exI conjI, assumption+)
  have e: "\<exists>m. filter_and_mask ?dot 1 60 = Inr m \<and> map length m = map length ?dot"
    using filter_and_mask_pipeline [OF pos1 rect4, of 60]
    by (elim exE conjE) (intro exI conjI, assumption+)
  note parts = pos3 l3 a b d pos1 l4 c e
  show ?thesis by (intro conjI) (rule parts)+
qed

subsection \<open>Labelling connected components\<close>

lemma label_step_zero:
  "snd (label_step msk s p) = 0 \<Longrightarrow>
   label_step msk s p = s \<and> \<not> (msk ! fst p ! snd p \<and> fst s ! fst p ! snd p = 0)"
  by (auto simp: label_step_def Let_def split: if_splits)

lemma foldl_label_step_zero:
  "snd (foldl (label_step msk) s ps) = 0 \<Longrightarrow>
   snd s = 0 \<and> (\<forall>p\<in>set ps. \<not> (msk ! fst p ! snd p \<and> fst s ! fst p ! snd p = 0))"
proof (induction ps arbitrary: s)
  case Nil
  then show ?case by simp
next
  case (Cons p ps)
  from Cons.prems have "snd (foldl (label_step msk) (label_step msk s p) ps) = 0" by simp
  from Cons.IH [OF this]
  have z: "snd (label_step msk s p) = 0"
    and rest: "\<forall>q\<in>set ps. \<not> (msk ! fst q ! snd q \<and> fst (label_step msk s p) ! fst q ! snd q = 0)"
    by simp_all
  from label_step_zero [OF z] rest z show ?case by simp
qed

lemma foldl_label_step_all_false:
  "\<forall>p\<in>set ps. \<not> msk ! fst p ! snd p \<Longrightarrow> foldl (label_step msk) s ps = s"
  by (induction ps arbitrary: s) (simp_all add: label_step_def Let_def)

lemma set_coords: "set (coords a) = {(r, c). r < length a \<and> c < length (a ! r)}"
  by (auto simp: coords_def)

lemma all_false_coords:
  "(\<forall>row\<in>set msk. \<forall>b\<in>set row. \<not> b) = (\<forall>p\<in>set (coords msk). \<not> msk ! fst p ! snd p)"
proof
  assume none: "\<forall>row\<in>set msk. \<forall>b\<in>set row. \<not> b"
  show "\<forall>p\<in>set (coords msk). \<not> msk ! fst p ! snd p"
  proof
    fix p assume "p \<in> set (coords msk)"
    then have r: "fst p < length msk" and c: "snd p < length (msk ! fst p)"
      by (auto simp: set_coords)
    from r have "msk ! fst p \<in> set msk" by simp
    moreover from c have "msk ! fst p ! snd p \<in> set (msk ! fst p)" by simp
    ultimately show "\<not> msk ! fst p ! snd p" using none by blast
  qed
next
  assume none: "\<forall>p\<in>set (coords msk). \<not> msk ! fst p ! snd p"
  show "\<forall>row\<in>set msk. \<forall>b\<in>set row. \<not> b"
  proof (intro ballI)
    fix row b assume "row \<in> set msk" "b \<in> set row"
    then obtain r c where "r < length msk" "row = msk ! r" "c < length row" "b = row ! c"
      by (auto simp: in_set_conv_nth)
    then have "(r, c) \<in> set (coords msk)" "b = msk ! r ! c"
      by (simp_all add: set_coords)
    with none show "\<not> b" by fastforce
  qed
qed


lemma zero_labels_nth:
  "r < length msk \<Longrightarrow> c < length (msk ! r) \<Longrightarrow> map (map (\<lambda>_. 0::nat)) msk ! r ! c = 0"
  by simp

text \<open>
  Claim C5. For every mask, \<open>label_components\<close> returns a component count \<open>K \<ge> 0\<close>,
  and \<open>K = 0\<close> exactly when the mask is all-false; an all-false mask is labelled like
  any other (the label map is all zero), not refused.
\<close>

theorem label_components_count_zero_iff:
  "0 \<le> snd (label_components msk)
   \<and> (snd (label_components msk) = 0) = (\<forall>row\<in>set msk. \<forall>b\<in>set row. \<not> b)
   \<and> ((\<forall>row\<in>set msk. \<forall>b\<in>set row. \<not> b) \<longrightarrow>
        label_components msk = (map (map (\<lambda>_. 0)) msk, 0))"
proof (intro conjI impI)
  show "0 \<le> snd (label_components msk)" by simp
next
  show "(snd (label_components msk) = 0) = (\<forall>row\<in>set msk. \<forall>b\<in>set row. \<not> b)"
  proof
    assume "snd (label_components msk) = 0"
    then have "snd (foldl (label_step msk) (map (map (\<lambda>_. 0)) msk, 0) (coords msk)) = 0"
      by (simp only: label_components_def)
    from foldl_label_step_zero [OF this]
    have no_start: "\<forall>p\<in>set (coords msk).
        \<not> (msk ! fst p ! snd p \<and> map (map (\<lambda>_. 0::nat)) msk ! fst p ! snd p = 0)"
      by simp
    have "\<forall>p\<in>set (coords msk). \<not> msk ! fst p ! snd p"
    proof
      fix p assume p: "p \<in> set (coords msk)"
      then have "fst p < length msk" "snd p < length (msk ! fst p)"
        by (auto simp: set_coords)
      then have "map (map (\<lambda>_. 0::nat)) msk ! fst p ! snd p = 0" by (rule zero_labels_nth)
      with no_start p show "\<not> msk ! fst p ! snd p" by blast
    qed
    then show "\<forall>row\<in>set msk. \<forall>b\<in>set row. \<not> b" by (simp only: all_false_coords)
  next
    assume "\<forall>row\<in>set msk. \<forall>b\<in>set row. \<not> b"
    then have "\<forall>p\<in>set (coords msk). \<not> msk ! fst p ! snd p" by (simp only: all_false_coords)
    then show "snd (label_components msk) = 0"
      by (simp add: label_components_def foldl_label_step_all_false)
  qed
next
  assume "\<forall>row\<in>set msk. \<forall>b\<in>set row. \<not> b"
  then have "\<forall>p\<in>set (coords msk). \<not> msk ! fst p ! snd p" by (simp only: all_false_coords)
  then show "label_components msk = (map (map (\<lambda>_. 0)) msk, 0)"
    by (simp add: label_components_def foldl_label_step_all_false)
qed

theorem label_components_count_zero_iff_witness:
  "label_components [[False, False], [False, False]] = ([[0, 0], [0, 0]], 0)
   \<and> snd (label_components [[False, True], [False, False]]) \<noteq> 0"
proof -
  have none: "\<forall>row\<in>set [[False, False], [False, False]]. \<forall>b\<in>set row. \<not> b" by simp
  have some: "\<not> (\<forall>row\<in>set [[False, True], [False, False]]. \<forall>b\<in>set row. \<not> b)"
    by simp (rule exI [of _ True], simp)
  from label_components_count_zero_iff [of "[[False, False], [False, False]]"] none
  have a: "label_components [[False, False], [False, False]] = ([[0, 0], [0, 0]], 0)"
    by simp
  from label_components_count_zero_iff [of "[[False, True], [False, False]]"] some
  have b: "snd (label_components [[False, True], [False, False]]) \<noteq> 0"
    by blast
  from a b show ?thesis by (rule conjI)
qed

text \<open>Two diagonal elements are not face neighbours and get two labels.\<close>

lemma label_components_diagonal:
  "label_components [[True, False], [False, True]] = ([[1, 0], [0, 2]], 2)"
  by code_simp

end
